theory Spec2Isabelle
  imports Main "HOL-Library.Word"
begin

section \<open>JavaScript strings and numbers\<close>

text \<open>
  A JavaScript string is a sequence of 16-bit code units; \<open>length\<close>, \<open>substring\<close>
  and a regular expression without the \<open>u\<close> flag all count and match code units.
  \<open>lit\<close> embeds an ASCII literal of the source text.
\<close>

type_synonym jschar = "16 word"
type_synonym jsstring = "jschar list"

definition lit :: "string \<Rightarrow> jsstring" where
  "lit s = map (\<lambda>c. of_nat (of_char c)) s"

definition DQUOTE :: jschar where "DQUOTE = 0x22"
definition SPACE :: jschar where "SPACE = 0x20"
definition CR :: jschar where "CR = 0x0D"
definition LF :: jschar where "LF = 0x0A"
definition BACKSLASH :: jschar where "BACKSLASH = 0x5C"
definition SEMICOLON :: jschar where "SEMICOLON = 0x3B"
definition COMMA :: jschar where "COMMA = 0x2C"
definition LOWER_N :: jschar where "LOWER_N = 0x6E"

text \<open>
  \<open>String(n)\<close> and \<open>`${n}`\<close> for an integral Number: the decimal digits, with a
  leading minus sign for a negative value (the numbers rendered here are list indices,
  calendar fields and clock readings, far below the 1e21 where JavaScript switches to
  exponent notation).
\<close>

definition digit_char :: "nat \<Rightarrow> jschar" where
  "digit_char d = of_nat (48 + d)"

fun decimal :: "nat \<Rightarrow> jsstring" where
  "decimal n = (if n < 10 then [digit_char n] else decimal (n div 10) @ [digit_char (n mod 10)])"

declare decimal.simps [simp del]

definition string_of_int :: "int \<Rightarrow> jsstring" where
  "string_of_int i = (if i < 0 then lit ''-'' @ decimal (nat (- i)) else decimal (nat i))"

text \<open>A Number that may be \<open>NaN\<close>: \<open>None\<close> is \<open>NaN\<close>.\<close>

type_synonym jsnumber = "int option"

definition String :: "jsnumber \<Rightarrow> jsstring" where
  "String x = (case x of None \<Rightarrow> lit ''NaN'' | Some i \<Rightarrow> string_of_int i)"

text \<open>
  The relational comparison of two Date objects (\<open>a < b\<close>) converts both to their
  time values and compares the numbers; a comparison with \<open>NaN\<close> on either side
  is false.
\<close>

definition js_less :: "jsnumber \<Rightarrow> jsnumber \<Rightarrow> bool" where
  "js_less a b = (case a of None \<Rightarrow> False | Some x \<Rightarrow> (case b of None \<Rightarrow> False | Some y \<Rightarrow> x < y))"

text \<open>
  \<open>new Date(s)\<close> for a string \<open>s\<close> is the host's date parser. It is a parameter of
  every function that calls it: the time value in milliseconds since the epoch, or
  \<open>None\<close> for an Invalid Date (time value \<open>NaN\<close>).
\<close>

type_synonym date_parser = "jsstring \<Rightarrow> jsnumber"


section \<open>schema.ts: the event model\<close>

record Event =
  title :: jsstring
  start_local :: jsstring
  end_local :: jsstring
  description :: "jsstring option"
  location :: "jsstring option"

record ScheduleResponse =
  timezone :: jsstring
  events :: "Event list"

record ValidationResult =
  isValid :: bool
  errors :: "jsstring list"


section \<open>schema.ts: validation utilities\<close>

text \<open>\<open>return end > start\<close>: \<open>end > start\<close> is \<open>start < end\<close> with the operands swapped.\<close>

definition isValidEventTiming :: "date_parser \<Rightarrow> Event \<Rightarrow> bool" where
  "isValidEventTiming P event =
     (let start = P (start_local event); end' = P (end_local event)
      in js_less start end')"

definition eventsOverlap :: "date_parser \<Rightarrow> Event \<Rightarrow> Event \<Rightarrow> bool" where
  "eventsOverlap P event1 event2 =
     (let start1 = P (start_local event1); end1 = P (end_local event1);
          start2 = P (start_local event2); end2 = P (end_local event2)
      in js_less start1 end2 \<and> js_less start2 end1)"

text \<open>
  The inner loop \<open>for (let j = ...; j < events.length; j++)\<close> of
  \<open>findOverlappingEvents\<close>, with the array \<open>overlaps\<close> threaded through. Both
  indices are below \<open>events.length\<close> wherever \<open>events[i]\<close>, \<open>events[j]\<close> are read.
\<close>

function overlaps_inner ::
  "date_parser \<Rightarrow> Event list \<Rightarrow> nat \<Rightarrow> nat \<Rightarrow> (nat \<times> nat) list \<Rightarrow> (nat \<times> nat) list" where
  "overlaps_inner P evs i j overlaps =
     (if j < length evs
      then overlaps_inner P evs i (j + 1)
             (if eventsOverlap P (evs ! i) (evs ! j) then overlaps @ [(i, j)] else overlaps)
      else overlaps)"
  by pat_completeness auto
termination
  by (relation "measure (\<lambda>(P, evs, i, j, overlaps). length evs - j)") auto

declare overlaps_inner.simps [simp del]

text \<open>The outer loop \<open>for (let i = 0; i < events.length; i++)\<close>.\<close>

function overlaps_outer ::
  "date_parser \<Rightarrow> Event list \<Rightarrow> nat \<Rightarrow> (nat \<times> nat) list \<Rightarrow> (nat \<times> nat) list" where
  "overlaps_outer P evs i overlaps =
     (if i < length evs
      then overlaps_outer P evs (i + 1) (overlaps_inner P evs i (i + 1) overlaps)
      else overlaps)"
  by pat_completeness auto
termination
  by (relation "measure (\<lambda>(P, evs, i, overlaps). length evs - i)") auto

declare overlaps_outer.simps [simp del]

definition findOverlappingEvents :: "date_parser \<Rightarrow> Event list \<Rightarrow> (nat \<times> nat) list" where
  "findOverlappingEvents P evs = overlaps_outer P evs 0 []"

text \<open>The two messages \<open>validateSchedule\<close> builds with template literals.\<close>

definition timing_message :: "nat \<Rightarrow> Event \<Rightarrow> jsstring" where
  "timing_message index event =
     lit ''Event '' @ decimal (index + 1) @ lit '' ('' @ title event
       @ lit ''): end time must be after start time''"

definition overlap_message :: "Event list \<Rightarrow> nat \<Rightarrow> nat \<Rightarrow> jsstring" where
  "overlap_message evs i j =
     lit ''Events overlap: '' @ [DQUOTE] @ title (evs ! i) @ [DQUOTE] @ lit '' and ''
       @ [DQUOTE] @ title (evs ! j) @ [DQUOTE]"

text \<open>\<open>schedule.events.forEach((event, index) => ...)\<close>, pushing onto \<open>errors\<close>.\<close>

fun check_events :: "date_parser \<Rightarrow> Event list \<Rightarrow> nat \<Rightarrow> jsstring list \<Rightarrow> jsstring list" where
  "check_events P [] index errs = errs"
| "check_events P (event # rest) index errs =
     check_events P rest (index + 1)
       (if \<not> isValidEventTiming P event then errs @ [timing_message index event] else errs)"

text \<open>\<open>overlaps.forEach(([i, j]) => ...)\<close>, pushing onto \<open>errors\<close>.\<close>

fun report_overlaps :: "Event list \<Rightarrow> (nat \<times> nat) list \<Rightarrow> jsstring list \<Rightarrow> jsstring list" where
  "report_overlaps evs [] errs = errs"
| "report_overlaps evs ((i, j) # rest) errs =
     report_overlaps evs rest (errs @ [overlap_message evs i j])"

text \<open>\<open>!schedule.timezone\<close> holds of a string exactly when it is empty.\<close>

definition validateSchedule :: "date_parser \<Rightarrow> ScheduleResponse \<Rightarrow> ValidationResult" where
  "validateSchedule P schedule =
     (let errors0 = (if timezone schedule = [] then [lit ''Timezone is required''] else []);
          errors1 = check_events P (events schedule) 0 errors0;
          overlaps = findOverlappingEvents P (events schedule);
          errors2 = (if length overlaps > 0
                     then report_overlaps (events schedule) overlaps errors1
                     else errors1)
      in \<lparr> isValid = (length errors2 = 0), errors = errors2 \<rparr>)"


section \<open>The host: dates and URL query strings\<close>

text \<open>
  What the source takes from the JavaScript runtime and does not define itself. A Date
  object is its time value (\<open>jsnumber\<close>; \<open>None\<close> for an Invalid Date). The
  calendar fields of a valid time value are the host's: the local ones depend on the
  host's time zone. Months count from 0, as \<open>getMonth\<close> does.
\<close>

record civil =
  c_year :: int
  c_month :: int
  c_date :: int
  c_hours :: int
  c_minutes :: int
  c_seconds :: int

record host =
  parseDate :: date_parser
  localFields :: "int \<Rightarrow> civil"
  utcFields :: "int \<Rightarrow> civil"

text \<open>A getter of a Date object: the field of a valid date, \<open>NaN\<close> of an invalid one.\<close>

definition getter :: "(int \<Rightarrow> civil) \<Rightarrow> (civil \<Rightarrow> int) \<Rightarrow> jsnumber \<Rightarrow> jsnumber" where
  "getter of_time field date = (case date of None \<Rightarrow> None | Some t \<Rightarrow> Some (field (of_time t)))"

text \<open>\<open>x + 1\<close> on a Number: \<open>NaN + 1\<close> is \<open>NaN\<close>.\<close>

definition plus1 :: "jsnumber \<Rightarrow> jsnumber" where
  "plus1 x = (case x of None \<Rightarrow> None | Some i \<Rightarrow> Some (i + 1))"

text \<open>\<open>s.padStart(2, '0')\<close>.\<close>

definition padStart2 :: "jsstring \<Rightarrow> jsstring" where
  "padStart2 s = (if length s < 2 then replicate (2 - length s) 0x30 @ s else s)"

text \<open>\<open>xs.join(sep)\<close> on an array of strings.\<close>

fun join :: "jsstring \<Rightarrow> jsstring list \<Rightarrow> jsstring" where
  "join sep [] = []"
| "join sep [x] = x"
| "join sep (x # y # ys) = x @ sep @ join sep (y # ys)"

text \<open>
  \<open>URLSearchParams.prototype.toString\<close>: the application/x-www-form-urlencoded
  serializer of the URL standard. A name or value is converted to scalar values (a
  surrogate pair is one code point, a lone surrogate becomes U+FFFD), encoded in UTF-8,
  and each byte is written as itself when it is an ASCII letter or digit or one of
  \<open>* - . _\<close>, as \<open>+\<close> when it is a space, and as \<open>%XX\<close> with upper-case
  hexadecimal digits otherwise. The pairs are \<open>name=value\<close>, joined by \<open>&\<close>.
\<close>

definition is_high_surrogate :: "jschar \<Rightarrow> bool" where
  "is_high_surrogate c = (0xD800 \<le> c \<and> c \<le> 0xDBFF)"

definition is_low_surrogate :: "jschar \<Rightarrow> bool" where
  "is_low_surrogate c = (0xDC00 \<le> c \<and> c \<le> 0xDFFF)"

definition lone_unit :: "jschar \<Rightarrow> nat" where
  "lone_unit c = (if is_high_surrogate c \<or> is_low_surrogate c then 0xFFFD else unat c)"

fun scalar_values :: "jsstring \<Rightarrow> nat list" where
  "scalar_values [] = []"
| "scalar_values [c] = [lone_unit c]"
| "scalar_values (c # d # rest) =
     (if is_high_surrogate c \<and> is_low_surrogate d
      then (0x10000 + (unat c - 0xD800) * 0x400 + (unat d - 0xDC00)) # scalar_values rest
      else lone_unit c # scalar_values (d # rest))"

definition utf8 :: "nat \<Rightarrow> nat list" where
  "utf8 cp =
     (if cp < 0x80 then [cp]
      else if cp < 0x800 then [0xC0 + cp div 0x40, 0x80 + cp mod 0x40]
      else if cp < 0x10000
        then [0xE0 + cp div 0x1000, 0x80 + (cp div 0x40) mod 0x40, 0x80 + cp mod 0x40]
      else [0xF0 + cp div 0x40000, 0x80 + (cp div 0x1000) mod 0x40,
            0x80 + (cp div 0x40) mod 0x40, 0x80 + cp mod 0x40])"

definition hex_digit :: "nat \<Rightarrow> jschar" where
  "hex_digit d = (if d < 10 then of_nat (0x30 + d) else of_nat (0x41 + (d - 10)))"

definition form_byte :: "nat \<Rightarrow> jsstring" where
  "form_byte b =
     (if b = 0x20 then [0x2B]
      else if (0x30 \<le> b \<and> b \<le> 0x39) \<or> (0x41 \<le> b \<and> b \<le> 0x5A) \<or> (0x61 \<le> b \<and> b \<le> 0x7A)
              \<or> b = 0x2A \<or> b = 0x2D \<or> b = 0x2E \<or> b = 0x5F
        then [of_nat b]
      else [0x25, hex_digit (b div 16), hex_digit (b mod 16)])"

definition form_encode :: "jsstring \<Rightarrow> jsstring" where
  "form_encode s = concat (map form_byte (concat (map utf8 (scalar_values s))))"

definition params_toString :: "(jsstring \<times> jsstring) list \<Rightarrow> jsstring" where
  "params_toString params =
     join (lit ''&'') (map (\<lambda>(name, v). form_encode name @ lit ''='' @ form_encode v) params)"


section \<open>ics.ts: the calendar-file encoder\<close>

definition formatDateForICS :: "host \<Rightarrow> jsstring \<Rightarrow> jsstring" where
  "formatDateForICS h localDateTime =
     (let date = parseDate h localDateTime;
          year = getter (utcFields h) c_year date;
          month = padStart2 (String (plus1 (getter (utcFields h) c_month date)));
          day = padStart2 (String (getter (utcFields h) c_date date));
          hours = padStart2 (String (getter (utcFields h) c_hours date));
          minutes = padStart2 (String (getter (utcFields h) c_minutes date));
          seconds = padStart2 (String (getter (utcFields h) c_seconds date))
      in String year @ month @ day @ lit ''T'' @ hours @ minutes @ seconds @ lit ''Z'')"

text \<open>\<open>text.replace(/c/g, rep)\<close> for a pattern that is the single code unit \<open>c\<close>.\<close>

definition replace_all :: "jschar \<Rightarrow> jsstring \<Rightarrow> jsstring \<Rightarrow> jsstring" where
  "replace_all c rep text = concat (map (\<lambda>x. if x = c then rep else [x]) text)"

definition escapeICSText :: "jsstring \<Rightarrow> jsstring" where
  "escapeICSText text =
     replace_all LF [BACKSLASH, LOWER_N]
       (replace_all COMMA [BACKSLASH, COMMA]
         (replace_all SEMICOLON [BACKSLASH, SEMICOLON]
           (replace_all BACKSLASH [BACKSLASH, BACKSLASH] text)))"

text \<open>The loop \<open>while (remaining.length > 0)\<close> of \<open>foldLine\<close>.\<close>

function fold_rest :: "jsstring \<Rightarrow> jsstring list \<Rightarrow> jsstring list" where
  "fold_rest remaining folded =
     (if length remaining > 0
      then fold_rest (drop 74 remaining) (folded @ [SPACE # take 74 remaining])
      else folded)"
  by pat_completeness auto
termination
  by (relation "measure (\<lambda>(remaining, folded). length remaining)") auto

declare fold_rest.simps [simp del]

definition foldLine :: "jsstring \<Rightarrow> jsstring" where
  "foldLine line =
     (if length line \<le> 75 then line
      else join [CR, LF] (fold_rest (drop 75 line) [take 75 line]))"

text \<open>\<open>s.replace(/[^a-zA-Z0-9]/g, '')\<close>.\<close>

definition is_alnum :: "jschar \<Rightarrow> bool" where
  "is_alnum c = ((0x61 \<le> c \<and> c \<le> 0x7A) \<or> (0x41 \<le> c \<and> c \<le> 0x5A) \<or> (0x30 \<le> c \<and> c \<le> 0x39))"

text \<open>\<open>now\<close> is what \<open>Date.now()\<close> returns when \<open>generateUID\<close> reads the clock.\<close>

definition generateUID :: "int \<Rightarrow> Event \<Rightarrow> nat \<Rightarrow> jsstring" where
  "generateUID now event index =
     (let timestamp = now;
          hash = filter is_alnum
                   (title event @ lit ''-'' @ start_local event @ lit ''-'' @ decimal index)
      in string_of_int timestamp @ lit ''-'' @ hash @ lit ''@chat-to-calendar'')"

text \<open>
  \<open>createVEvent\<close> reads the clock twice: \<open>Date.now()\<close> in \<open>generateUID\<close>, then
  \<open>new Date().toISOString()\<close> for the DTSTAMP line. In one run of the encoder,
  \<open>now index\<close> is the first reading and \<open>isoNow index\<close> the second one (as the ISO
  string) while the event at \<open>index\<close> is encoded. An optional field is pushed when it
  is truthy: present and not the empty string.
\<close>

definition createVEvent ::
  "host \<Rightarrow> (nat \<Rightarrow> int) \<Rightarrow> (nat \<Rightarrow> jsstring) \<Rightarrow> Event \<Rightarrow> nat \<Rightarrow> jsstring list" where
  "createVEvent h now isoNow event index =
     (let lines0 = [lit ''BEGIN:VEVENT''];
          lines1 = lines0 @ [lit ''UID:'' @ generateUID (now index) event index];
          lines2 = lines1 @ [lit ''DTSTAMP:'' @ formatDateForICS h (isoNow index)];
          lines3 = lines2 @ [lit ''DTSTART:'' @ formatDateForICS h (start_local event)];
          lines4 = lines3 @ [lit ''DTEND:'' @ formatDateForICS h (end_local event)];
          lines5 = lines4 @ [lit ''SUMMARY:'' @ escapeICSText (title event)];
          lines6 = (case description event of
                      None \<Rightarrow> lines5
                    | Some d \<Rightarrow> if d \<noteq> [] then lines5 @ [lit ''DESCRIPTION:'' @ escapeICSText d]
                               else lines5);
          lines7 = (case location event of
                      None \<Rightarrow> lines6
                    | Some l \<Rightarrow> if l \<noteq> [] then lines6 @ [lit ''LOCATION:'' @ escapeICSText l]
                               else lines6)
      in lines7 @ [lit ''END:VEVENT''])"

text \<open>\<open>schedule.events.forEach((event, index) => lines.push(...createVEvent(event, index)))\<close>.\<close>

fun push_events ::
  "host \<Rightarrow> (nat \<Rightarrow> int) \<Rightarrow> (nat \<Rightarrow> jsstring) \<Rightarrow> Event list \<Rightarrow> nat \<Rightarrow> jsstring list
     \<Rightarrow> jsstring list" where
  "push_events h now isoNow [] index lines = lines"
| "push_events h now isoNow (event # rest) index lines =
     push_events h now isoNow rest (index + 1) (lines @ createVEvent h now isoNow event index)"

definition generateICS ::
  "host \<Rightarrow> (nat \<Rightarrow> int) \<Rightarrow> (nat \<Rightarrow> jsstring) \<Rightarrow> ScheduleResponse \<Rightarrow> jsstring" where
  "generateICS h now isoNow schedule =
     (let lines0 = [lit ''BEGIN:VCALENDAR'', lit ''VERSION:2.0'',
                    lit ''PRODID:-//Chat to Calendar//EN'', lit ''CALSCALE:GREGORIAN'',
                    lit ''METHOD:PUBLISH'', lit ''X-WR-TIMEZONE:'' @ timezone schedule];
          lines1 = push_events h now isoNow (events schedule) 0 lines0;
          lines2 = lines1 @ [lit ''END:VCALENDAR''];
          foldedLines = map foldLine lines2
      in join [CR, LF] foldedLines)"


section \<open>appleLink.ts: the single-event link encoder\<close>

definition formatDateForApple :: "host \<Rightarrow> jsstring \<Rightarrow> jsstring" where
  "formatDateForApple h localDateTime =
     (let date = parseDate h localDateTime;
          year = getter (localFields h) c_year date;
          month = padStart2 (String (plus1 (getter (localFields h) c_month date)));
          day = padStart2 (String (getter (localFields h) c_date date));
          hours = padStart2 (String (getter (localFields h) c_hours date));
          minutes = padStart2 (String (getter (localFields h) c_minutes date));
          seconds = lit ''00''
      in String year @ month @ day @ lit ''T'' @ hours @ minutes @ seconds)"

text \<open>
  The \<open>URLSearchParams\<close> object is the list of its name-value pairs in the order of
  the \<open>append\<close> calls. The \<open>timezone\<close> argument is not used by the body.
\<close>

definition appleParams :: "host \<Rightarrow> Event \<Rightarrow> (jsstring \<times> jsstring) list" where
  "appleParams h event =
     (let params0 = [(lit ''title'', title event)];
          params1 = params0 @ [(lit ''starts'', formatDateForApple h (start_local event))];
          params2 = params1 @ [(lit ''ends'', formatDateForApple h (end_local event))];
          params3 = (case description event of
                       None \<Rightarrow> params2
                     | Some d \<Rightarrow> if d \<noteq> [] then params2 @ [(lit ''details'', d)] else params2);
          params4 = (case location event of
                       None \<Rightarrow> params3
                     | Some l \<Rightarrow> if l \<noteq> [] then params3 @ [(lit ''location'', l)] else params3)
      in params4)"

definition generateAppleCalendarLink :: "host \<Rightarrow> Event \<Rightarrow> jsstring \<Rightarrow> jsstring" where
  "generateAppleCalendarLink h event tz =
     lit ''https://www.icloud.com/calendar/event?'' @ params_toString (appleParams h event)"


section \<open>Helper definitions for the statements\<close>

text \<open>The pairs the overlap scan reports in row \<open>i\<close>, in the order of the inner loop.\<close>

definition row_pairs :: "date_parser \<Rightarrow> Event list \<Rightarrow> nat \<Rightarrow> (nat \<times> nat) list" where
  "row_pairs P evs i =
     map (Pair i) (filter (\<lambda>j. eventsOverlap P (evs ! i) (evs ! j)) [i + 1..<length evs])"


text \<open>The order in which the scan visits index pairs: first index, then second.\<close>

definition pair_before :: "nat \<times> nat \<Rightarrow> nat \<times> nat \<Rightarrow> bool" where
  "pair_before p q = (fst p < fst q \<or> (fst p = fst q \<and> snd p < snd q))"

text \<open>
  Sample data for the concrete instances below. \<open>sample_dates\<close> gives the time values
  of four strings in the documented format, and of one ISO string as \<open>toISOString\<close>
  writes it, on a host whose local zone is UTC; every other string is an Invalid Date
  for it.
\<close>

definition sample_dates :: date_parser where
  "sample_dates s =
     (if s = lit ''2026-02-09T07:00'' then Some 1770620400000
      else if s = lit ''2026-02-09T08:00'' then Some 1770624000000
      else if s = lit ''2026-02-09T08:30'' then Some 1770625800000
      else if s = lit ''2026-02-09T09:00'' then Some 1770627600000
      else if s = lit ''2026-02-09T07:00:00.000Z'' then Some 1770620400000
      else None)"

definition gym :: Event where
  "gym = \<lparr> title = lit ''Gym'', start_local = lit ''2026-02-09T07:00'',
           end_local = lit ''2026-02-09T08:00'', description = None, location = None \<rparr>"

definition long_gym :: Event where
  "long_gym = \<lparr> title = lit ''Long gym'', start_local = lit ''2026-02-09T07:00'',
           end_local = lit ''2026-02-09T08:30'', description = None, location = None \<rparr>"

definition breakfast :: Event where
  "breakfast = \<lparr> title = lit ''Breakfast'', start_local = lit ''2026-02-09T08:00'',
           end_local = lit ''2026-02-09T09:00'', description = None, location = None \<rparr>"


text \<open>What \<open>escapeICSText\<close> makes of one code unit.\<close>

definition escape_unit :: "jschar \<Rightarrow> jsstring" where
  "escape_unit c =
     (if c = BACKSLASH then [BACKSLASH, BACKSLASH]
      else if c = SEMICOLON then [BACKSLASH, SEMICOLON]
      else if c = COMMA then [BACKSLASH, COMMA]
      else if c = LF then [BACKSLASH, LOWER_N]
      else [c])"

text \<open>
  The reader's side of the escaping, which the repository does not contain: the text
  unescape of the calendar format, read left to right. A backslash followed by \<open>n\<close> is
  a newline; a backslash followed by a backslash, a semicolon or a comma is that
  character; everything else stands for itself.
\<close>

fun unescapeICSText :: "jsstring \<Rightarrow> jsstring" where
  "unescapeICSText [] = []"
| "unescapeICSText [a] = [a]"
| "unescapeICSText (a # b # rest) =
     (if a = BACKSLASH \<and> b = LOWER_N then LF # unescapeICSText rest
      else if a = BACKSLASH \<and> (b = BACKSLASH \<or> b = SEMICOLON \<or> b = COMMA)
        then b # unescapeICSText rest
      else a # unescapeICSText (b # rest))"

text \<open>A string cut into pieces of 74 code units (the last one may be shorter).\<close>

function chunks74 :: "jsstring \<Rightarrow> jsstring list" where
  "chunks74 s = (if s = [] then [] else take 74 s # chunks74 (drop 74 s))"
  by pat_completeness auto
termination
  by (relation "measure length") auto

declare chunks74.simps [simp del]

text \<open>
  Unfolding, as a reader of the calendar format does it: every occurrence of carriage
  return, line feed, space is removed, scanning left to right.
\<close>

fun unfoldLine :: "jsstring \<Rightarrow> jsstring" where
  "unfoldLine (a # b # c # rest) =
     (if a = CR \<and> b = LF \<and> c = SPACE then unfoldLine rest
      else a # unfoldLine (b # c # rest))"
| "unfoldLine s = s"

text \<open>Whether a string contains carriage return, line feed, space in a row.\<close>

fun has_fold_mark :: "jsstring \<Rightarrow> bool" where
  "has_fold_mark (a # b # c # rest) =
     ((a = CR \<and> b = LF \<and> c = SPACE) \<or> has_fold_mark (b # c # rest))"
| "has_fold_mark s = False"

text \<open>A line of 76 code units that starts with carriage return, line feed, space.\<close>

definition marked_line :: jsstring where
  "marked_line = [CR, LF, SPACE] @ replicate 73 0x61"


text \<open>The documented format of \<open>start_local\<close> and \<open>end_local\<close>: YYYY-MM-DDTHH:mm.\<close>

definition is_digit :: "jschar \<Rightarrow> bool" where
  "is_digit c = (0x30 \<le> c \<and> c \<le> 0x39)"

datatype slot = Digit | Exactly jschar

fun matches :: "slot list \<Rightarrow> jsstring \<Rightarrow> bool" where
  "matches [] [] = True"
| "matches (Digit # ps) (c # cs) = (is_digit c \<and> matches ps cs)"
| "matches (Exactly x # ps) (c # cs) = (c = x \<and> matches ps cs)"
| "matches ps cs = False"

definition local_format :: "slot list" where
  "local_format = [Digit, Digit, Digit, Digit, Exactly 0x2D, Digit, Digit, Exactly 0x2D,
     Digit, Digit, Exactly 0x54, Digit, Digit, Exactly 0x3A, Digit, Digit]"

definition is_local_format :: "jsstring \<Rightarrow> bool" where
  "is_local_format s = matches local_format s"

text \<open>
  A schedule of eleven events whose first and last events differ: the last one has a
  start string that is one digit short of the documented format.
\<close>

definition run_a :: Event where
  "run_a = \<lparr> title = lit ''Run 1'', start_local = lit ''2026-02-09T07:01'',
             end_local = lit ''2026-02-09T08:00'', description = None, location = None \<rparr>"

definition run_b :: Event where
  "run_b = \<lparr> title = lit ''Run 1'', start_local = lit ''2026-02-09T07:0'',
             end_local = lit ''2026-02-09T08:00'', description = None, location = None \<rparr>"

definition crowded :: ScheduleResponse where
  "crowded = \<lparr> timezone = lit ''UTC'', events = run_a # replicate 9 breakfast @ [run_b] \<rparr>"


text \<open>
  The calendar fields of a time value in UTC (the proleptic Gregorian calendar of the
  language standard), computed from the day number: \<open>era_day\<close> is the day within the
  400-year cycle that starts on 1 March, \<open>era_year\<close> the year within it,
  \<open>year_day\<close> the day of that year and \<open>march_month\<close> its month, both counted from
  March. This is the sample host's calendar, used for the concrete instances only.
\<close>

definition era_day :: "int \<Rightarrow> int" where
  "era_day days = (days + 719468) mod 146097"

definition era_year :: "int \<Rightarrow> int" where
  "era_year doe = (doe - doe div 1460 + doe div 36524 - doe div 146096) div 365"

definition year_day :: "int \<Rightarrow> int" where
  "year_day doe = doe - (365 * era_year doe + era_year doe div 4 - era_year doe div 100)"

definition march_month :: "int \<Rightarrow> int" where
  "march_month doy = (5 * doy + 2) div 153"

definition utc_year :: "int \<Rightarrow> int" where
  "utc_year days =
     era_year (era_day days) + (days + 719468) div 146097 * 400
       + (if march_month (year_day (era_day days)) < 10 then 0 else 1)"

definition utc_month :: "int \<Rightarrow> int" where
  "utc_month days =
     (if march_month (year_day (era_day days)) < 10
      then march_month (year_day (era_day days)) + 2
      else march_month (year_day (era_day days)) - 10)"

definition utc_date :: "int \<Rightarrow> int" where
  "utc_date days =
     year_day (era_day days) - (153 * march_month (year_day (era_day days)) + 2) div 5 + 1"

definition utc_civil :: "int \<Rightarrow> civil" where
  "utc_civil t =
     \<lparr> c_year = utc_year (t div 86400000), c_month = utc_month (t div 86400000),
       c_date = utc_date (t div 86400000), c_hours = (t mod 86400000) div 3600000,
       c_minutes = (t div 60000) mod 60, c_seconds = (t div 1000) mod 60 \<rparr>"

text \<open>The sample host: a machine in UTC that parses the sample strings.\<close>

definition sample_host :: host where
  "sample_host = \<lparr> parseDate = sample_dates, localFields = utc_civil, utcFields = utc_civil \<rparr>"

text \<open>An event whose start and end are not dates at all.\<close>

definition no_date :: Event where
  "no_date = \<lparr> title = lit ''Gym'', start_local = lit ''tomorrow at seven'',
               end_local = lit ''an hour later'', description = None, location = None \<rparr>"

text \<open>The gym session with an empty description and an empty location.\<close>

definition quiet_gym :: Event where
  "quiet_gym = gym \<lparr> description := Some [], location := Some [] \<rparr>"

text \<open>An event with its empty-string optional fields taken away.\<close>

definition absent_if_empty :: "Event \<Rightarrow> Event" where
  "absent_if_empty e =
     e \<lparr> description := (if description e = Some [] then None else description e),
         location := (if location e = Some [] then None else location e) \<rparr>"


section \<open>The overlap scan as a filter over the index pairs\<close>

lemma overlaps_inner_eq:
  "overlaps_inner P evs i j acc =
     acc @ map (Pair i) (filter (\<lambda>j. eventsOverlap P (evs ! i) (evs ! j)) [j..<length evs])"
proof (induction P evs i j acc rule: overlaps_inner.induct)
  case (1 P evs i j acc)
  show ?case
  proof (cases "j < length evs")
    case True
    then have u: "[j..<length evs] = j # [j + 1..<length evs]"
      by (simp add: upt_conv_Cons)
    show ?thesis
      using True "1.IH" by (subst overlaps_inner.simps) (simp add: u)
  next
    case False
    then show ?thesis by (subst overlaps_inner.simps) simp
  qed
qed

lemma overlaps_inner_row: "overlaps_inner P evs i (i + 1) acc = acc @ row_pairs P evs i"
  by (simp add: overlaps_inner_eq row_pairs_def)

lemma overlaps_outer_eq:
  "overlaps_outer P evs i acc = acc @ concat (map (row_pairs P evs) [i..<length evs])"
proof (induction P evs i acc rule: overlaps_outer.induct)
  case (1 P evs i acc)
  show ?case
  proof (cases "i < length evs")
    case True
    then have u: "[i..<length evs] = i # [i + 1..<length evs]"
      by (simp add: upt_conv_Cons)
    have "overlaps_outer P evs i acc =
            overlaps_outer P evs (i + 1) (overlaps_inner P evs i (i + 1) acc)"
      using True by (subst overlaps_outer.simps) simp
    also have "\<dots> = overlaps_inner P evs i (i + 1) acc
                     @ concat (map (row_pairs P evs) [i + 1..<length evs])"
      using True by (rule "1.IH")
    finally show ?thesis
      by (simp only: u overlaps_inner_row list.map concat.simps append_assoc)
  next
    case False
    then show ?thesis by (subst overlaps_outer.simps) simp
  qed
qed

lemma findOverlappingEvents_eq:
  "findOverlappingEvents P evs = concat (map (row_pairs P evs) [0..<length evs])"
  by (simp add: findOverlappingEvents_def overlaps_outer_eq)

lemma set_row_pairs:
  "set (row_pairs P evs i) =
     {(a, j). a = i \<and> i < j \<and> j < length evs \<and> eventsOverlap P (evs ! i) (evs ! j)}"
  by (auto simp: row_pairs_def)

lemma set_findOverlappingEvents:
  "set (findOverlappingEvents P evs) =
     {(i, j). i < j \<and> j < length evs \<and> eventsOverlap P (evs ! i) (evs ! j)}"
  by (auto simp: findOverlappingEvents_eq set_row_pairs)

lemma distinct_row_pairs: "distinct (row_pairs P evs i)"
  by (simp add: row_pairs_def distinct_map inj_on_def)

lemma distinct_rows:
  "distinct ks \<Longrightarrow> distinct (concat (map (row_pairs P evs) ks))"
  by (induction ks) (auto simp: distinct_row_pairs set_row_pairs)

lemma distinct_findOverlappingEvents: "distinct (findOverlappingEvents P evs)"
  by (simp add: findOverlappingEvents_eq distinct_rows)

lemma sorted_row_pairs: "sorted_wrt pair_before (row_pairs P evs i)"
  by (simp add: row_pairs_def sorted_wrt_map pair_before_def sorted_wrt_filter)

lemma sorted_rows:
  "sorted_wrt (<) ks \<Longrightarrow> sorted_wrt pair_before (concat (map (row_pairs P evs) ks))"
  by (induction ks) (auto simp: sorted_wrt_append sorted_row_pairs set_row_pairs pair_before_def)

lemma sorted_findOverlappingEvents: "sorted_wrt pair_before (findOverlappingEvents P evs)"
  by (simp add: findOverlappingEvents_eq sorted_rows)


section \<open>Timing and overlap of two events\<close>

lemma js_less_iff: "js_less a b \<longleftrightarrow> (\<exists>x y. a = Some x \<and> b = Some y \<and> x < y)"
  by (auto simp: js_less_def split: option.splits)

text \<open>
  C1. For every pair of events, \<open>eventsOverlap\<close> is true exactly when both events have
  valid start and end instants with \<open>start1 < end2\<close> and \<open>start2 < end1\<close>. An
  event that ends at the very string (hence the very instant) at which the other one
  starts does not overlap it, in either argument order.
\<close>

theorem eventsOverlap_half_open:
  "(eventsOverlap P a b \<longleftrightarrow>
      (\<exists>s1 e1 s2 e2. P (start_local a) = Some s1 \<and> P (end_local a) = Some e1
         \<and> P (start_local b) = Some s2 \<and> P (end_local b) = Some e2
         \<and> s1 < e2 \<and> s2 < e1))
   \<and> \<not> eventsOverlap P (a\<lparr>end_local := t\<rparr>) (b\<lparr>start_local := t\<rparr>)
   \<and> \<not> eventsOverlap P (b\<lparr>start_local := t\<rparr>) (a\<lparr>end_local := t\<rparr>)"
  by (auto simp: eventsOverlap_def Let_def js_less_iff)

text \<open>
  C7. \<open>isValidEventTiming\<close> is true exactly when the end instant is strictly after the
  start instant (both valid); in particular it is false for an event whose end equals
  its start.
\<close>

theorem isValidEventTiming_strict:
  "(isValidEventTiming P e \<longleftrightarrow>
      (\<exists>s t. P (start_local e) = Some s \<and> P (end_local e) = Some t \<and> s < t))
   \<and> \<not> isValidEventTiming P (e\<lparr>end_local := start_local e\<rparr>)"
  by (auto simp: isValidEventTiming_def Let_def js_less_iff)

lemma eventsOverlap_sym: "eventsOverlap P a b = eventsOverlap P b a"
  by (auto simp: eventsOverlap_def Let_def)

lemma eventsOverlap_self: "eventsOverlap P e e = isValidEventTiming P e"
  by (auto simp: eventsOverlap_def isValidEventTiming_def Let_def)


section \<open>validateSchedule\<close>

lemma check_events_eq:
  "check_events P evs k errs =
     errs @ map (\<lambda>i. timing_message (k + i) (evs ! i))
              (filter (\<lambda>i. \<not> isValidEventTiming P (evs ! i)) [0..<length evs])"
proof (induction evs arbitrary: k errs)
  case Nil
  then show ?case by simp
next
  case (Cons e evs)
  have u: "[0..<length (e # evs)] = 0 # map Suc [0..<length evs]"
    by (simp add: upt_conv_Cons map_Suc_upt del: upt_Suc)
  show ?case
    by (simp only: u check_events.simps Cons.IH) (simp add: filter_map comp_def)
qed

lemma report_overlaps_eq:
  "report_overlaps evs ps errs = errs @ map (\<lambda>(i, j). overlap_message evs i j) ps"
  by (induction evs ps errs rule: report_overlaps.induct) simp_all

text \<open>
  C3. \<open>isValid\<close> holds exactly when \<open>errors\<close> is empty. The errors are, in this
  order: the missing-timezone error (when the timezone is empty), one timing error for
  each event that fails \<open>isValidEventTiming\<close>, in index order and numbered from 1, and
  one overlap error naming both titles for each pair that \<open>findOverlappingEvents\<close>
  returns. That list is strictly increasing in the order "first index, then second
  index" and holds exactly the overlapping pairs \<open>i < j\<close>, so nothing is cut short.
\<close>

theorem validateSchedule_accumulates:
  "isValid (validateSchedule P s) = (errors (validateSchedule P s) = [])
   \<and> errors (validateSchedule P s) =
       (if timezone s = [] then [lit ''Timezone is required''] else [])
       @ map (\<lambda>i. lit ''Event '' @ decimal (i + 1) @ lit '' ('' @ title (events s ! i)
                     @ lit ''): end time must be after start time'')
           (filter (\<lambda>i. \<not> isValidEventTiming P (events s ! i)) [0..<length (events s)])
       @ map (\<lambda>(i, j). lit ''Events overlap: '' @ [DQUOTE] @ title (events s ! i) @ [DQUOTE]
                          @ lit '' and '' @ [DQUOTE] @ title (events s ! j) @ [DQUOTE])
           (findOverlappingEvents P (events s))
   \<and> sorted_wrt pair_before (findOverlappingEvents P (events s))
   \<and> set (findOverlappingEvents P (events s)) =
       {(i, j). i < j \<and> j < length (events s)
                \<and> eventsOverlap P (events s ! i) (events s ! j)}"
proof -
  have m: "(\<lambda>(i, j). overlap_message (events s) i j) =
           (\<lambda>(i, j). lit ''Events overlap: '' @ [DQUOTE] @ title (events s ! i) @ [DQUOTE]
                          @ lit '' and '' @ [DQUOTE] @ title (events s ! j) @ [DQUOTE])"
    by (simp add: overlap_message_def fun_eq_iff)
  have r: "(if 0 < length ps then report_overlaps (events s) ps errs else errs)
             = errs @ map (\<lambda>(i, j). overlap_message (events s) i j) ps" for ps errs
    by (cases ps) (simp_all add: report_overlaps_eq)
  have e: "errors (validateSchedule P s) =
       (if timezone s = [] then [lit ''Timezone is required''] else [])
       @ map (\<lambda>i. timing_message i (events s ! i))
           (filter (\<lambda>i. \<not> isValidEventTiming P (events s ! i)) [0..<length (events s)])
       @ map (\<lambda>(i, j). overlap_message (events s) i j) (findOverlappingEvents P (events s))"
    unfolding validateSchedule_def Let_def r by (simp add: check_events_eq)
  have v: "isValid (validateSchedule P s) = (errors (validateSchedule P s) = [])"
    by (simp add: validateSchedule_def Let_def)
  show ?thesis
    using v e sorted_findOverlappingEvents set_findOverlappingEvents
    by (simp only: m timing_message_def)
qed


section \<open>findOverlappingEvents\<close>

lemma unordered_inj:
  "inj_on (\<lambda>(i, j). {i, j}) {(i::nat, j). i < j}"
  by (auto simp: inj_on_def doubleton_eq_iff)

text \<open>
  C10. Every returned pair \<open>(i, j)\<close> has \<open>i < j < n\<close>; no unordered pair of indices
  is returned twice; no index is paired with itself; and two equal events of positive
  duration at distinct indices are returned as a pair.
\<close>

theorem findOverlappingEvents_index_pairs:
  "set (findOverlappingEvents P evs) \<subseteq> {(i, j). i < j \<and> j < length evs}
   \<and> distinct (map (\<lambda>(i, j). {i, j}) (findOverlappingEvents P evs))
   \<and> (\<forall>i. (i, i) \<notin> set (findOverlappingEvents P evs))
   \<and> (\<forall>i j. i < j \<and> j < length evs \<and> evs ! i = evs ! j \<and> isValidEventTiming P (evs ! i)
          \<longrightarrow> (i, j) \<in> set (findOverlappingEvents P evs))"
proof (intro conjI)
  show sub: "set (findOverlappingEvents P evs) \<subseteq> {(i, j). i < j \<and> j < length evs}"
    by (auto simp: set_findOverlappingEvents)
  have "inj_on (\<lambda>(i, j). {i, j}) (set (findOverlappingEvents P evs))"
    by (rule inj_on_subset [OF unordered_inj]) (use sub in auto)
  then show "distinct (map (\<lambda>(i, j). {i, j}) (findOverlappingEvents P evs))"
    by (simp add: distinct_map distinct_findOverlappingEvents)
  show "\<forall>i. (i, i) \<notin> set (findOverlappingEvents P evs)"
    by (simp add: set_findOverlappingEvents)
  show "\<forall>i j. i < j \<and> j < length evs \<and> evs ! i = evs ! j \<and> isValidEventTiming P (evs ! i)
          \<longrightarrow> (i, j) \<in> set (findOverlappingEvents P evs)"
    by (auto simp: set_findOverlappingEvents eventsOverlap_self)
qed

text \<open>An instance: two copies of the one-hour gym session overlap each other.\<close>

theorem findOverlappingEvents_index_pairs_witness:
  "isValidEventTiming sample_dates gym
   \<and> (0, 1) \<in> set (findOverlappingEvents sample_dates [gym, gym])"
proof -
  have v: "isValidEventTiming sample_dates gym"
    by (simp add: isValidEventTiming_def gym_def sample_dates_def lit_def js_less_def)
  have "(0::nat) < 1 \<and> 1 < length [gym, gym] \<and> [gym, gym] ! 0 = [gym, gym] ! 1
          \<and> isValidEventTiming sample_dates ([gym, gym] ! 0)"
    using v by simp
  then have "(0, 1) \<in> set (findOverlappingEvents sample_dates [gym, gym])"
    using findOverlappingEvents_index_pairs [of sample_dates "[gym, gym]"] by blast
  with v show ?thesis by simp
qed

text \<open>
  C8. Let \<open>\<pi>\<close> be a permutation of the indices of \<open>evs\<close>, and let the permuted list
  hold at position \<open>k\<close> the event at position \<open>\<pi> k\<close> of \<open>evs\<close>. The pairs reported for
  the permuted list, mapped back through \<open>\<pi>\<close> and read as unordered pairs, are the
  pairs reported for \<open>evs\<close>. (The scan always reports the smaller index first, so a pair
  is compared as the set of its two indices.)
\<close>

theorem findOverlappingEvents_permutation:
  assumes bij: "bij_betw \<pi> {..<length evs} {..<length evs}"
  shows "(\<lambda>(i, j). {\<pi> i, \<pi> j})
           ` set (findOverlappingEvents P (map (\<lambda>k. evs ! \<pi> k) [0..<length evs]))
         = (\<lambda>(i, j). {i, j}) ` set (findOverlappingEvents P evs)"
proof -
  let ?n = "length evs"
  let ?evs' = "map (\<lambda>k. evs ! \<pi> k) [0..<?n]"
  have len: "length ?evs' = ?n" by simp
  have nth: "?evs' ! k = evs ! \<pi> k" if "k < ?n" for k using that by simp
  have range: "\<pi> k < ?n" if "k < ?n" for k
    using bij that by (auto simp: bij_betw_def)
  have inj: "\<pi> i \<noteq> \<pi> j" if "i < ?n" "j < ?n" "i \<noteq> j" for i j
    using bij that by (auto simp: bij_betw_def inj_on_def)
  have surj: "\<exists>k < ?n. \<pi> k = a" if "a < ?n" for a
  proof -
    have "a \<in> \<pi> ` {..<?n}" using bij that by (simp add: bij_betw_def)
    then show ?thesis by auto
  qed
  show ?thesis
  proof (intro set_eqI iffI)
    fix x
    assume "x \<in> (\<lambda>(i, j). {\<pi> i, \<pi> j}) ` set (findOverlappingEvents P ?evs')"
    then obtain i j where ij: "i < j" "j < ?n" "eventsOverlap P (?evs' ! i) (?evs' ! j)"
      and x: "x = {\<pi> i, \<pi> j}"
      unfolding set_findOverlappingEvents len by auto
    have ov: "eventsOverlap P (evs ! \<pi> i) (evs ! \<pi> j)"
      using ij nth by simp
    have ne: "\<pi> i \<noteq> \<pi> j" using ij inj by simp
    have lt: "\<pi> i < ?n" "\<pi> j < ?n" using ij range by simp_all
    show "x \<in> (\<lambda>(i, j). {i, j}) ` set (findOverlappingEvents P evs)"
    proof (cases "\<pi> i < \<pi> j")
      case True
      then have "(\<pi> i, \<pi> j) \<in> set (findOverlappingEvents P evs)"
        using ov lt by (simp add: set_findOverlappingEvents)
      then show ?thesis unfolding x by force
    next
      case False
      then have "\<pi> j < \<pi> i" using ne by simp
      moreover have "eventsOverlap P (evs ! \<pi> j) (evs ! \<pi> i)"
        using ov by (simp add: eventsOverlap_sym)
      ultimately have "(\<pi> j, \<pi> i) \<in> set (findOverlappingEvents P evs)"
        using lt by (simp add: set_findOverlappingEvents)
      moreover have "x = {\<pi> j, \<pi> i}" unfolding x by auto
      ultimately show ?thesis by force
    qed
  next
    fix x
    assume "x \<in> (\<lambda>(i, j). {i, j}) ` set (findOverlappingEvents P evs)"
    then obtain a b where ab: "a < b" "b < ?n" "eventsOverlap P (evs ! a) (evs ! b)"
      and x: "x = {a, b}"
      unfolding set_findOverlappingEvents by auto
    obtain i where i: "i < ?n" "\<pi> i = a" using surj [of a] ab by auto
    obtain j where j: "j < ?n" "\<pi> j = b" using surj [of b] ab by auto
    have ne: "i \<noteq> j" using i j ab by auto
    show "x \<in> (\<lambda>(i, j). {\<pi> i, \<pi> j}) ` set (findOverlappingEvents P ?evs')"
    proof (cases "i < j")
      case True
      then have "(i, j) \<in> set (findOverlappingEvents P ?evs')"
        unfolding set_findOverlappingEvents len using i j ab nth by simp
      then show ?thesis unfolding x using i j by force
    next
      case False
      then have ji: "j < i" using ne by simp
      have "eventsOverlap P (evs ! b) (evs ! a)"
        using ab by (simp add: eventsOverlap_sym)
      then have "(j, i) \<in> set (findOverlappingEvents P ?evs')"
        unfolding set_findOverlappingEvents len using i j ji nth by simp
      moreover have "x = {\<pi> j, \<pi> i}" unfolding x using i j by auto
      ultimately show ?thesis by force
    qed
  qed
qed

lemma rev3_bij: "bij_betw (\<lambda>k. 2 - k) {..<length [a, b, c]} {..<length [a, b, c]}"
proof -
  have s: "{..<length [a, b, c]} = {0, 1, 2}" by auto
  show ?thesis unfolding s bij_betw_def inj_on_def by auto
qed

text \<open>An instance: reversing a list of three events.\<close>

theorem findOverlappingEvents_permutation_witness:
  "bij_betw (\<lambda>k. 2 - k) {..<length [long_gym, breakfast, gym]} {..<length [long_gym, breakfast, gym]}
   \<and> (\<lambda>(i, j). {2 - i, 2 - j}) ` set (findOverlappingEvents sample_dates [gym, breakfast, long_gym])
     = (\<lambda>(i, j). {i, j}) ` set (findOverlappingEvents sample_dates [long_gym, breakfast, gym])
   \<and> findOverlappingEvents sample_dates [long_gym, breakfast, gym] = [(0, 1), (0, 2)]
   \<and> findOverlappingEvents sample_dates [gym, breakfast, long_gym] = [(0, 2), (1, 2)]"
proof -
  have b: "bij_betw (\<lambda>k. 2 - k) {..<length [long_gym, breakfast, gym]} {..<length [long_gym, breakfast, gym]}"
    by (rule rev3_bij)
  have m: "map (\<lambda>k. [long_gym, breakfast, gym] ! (2 - k)) [0..<length [long_gym, breakfast, gym]]
             = [gym, breakfast, long_gym]"
    by (simp add: upt_conv_Cons)
  have 1: "findOverlappingEvents sample_dates [long_gym, breakfast, gym] = [(0, 1), (0, 2)]"
    by code_simp
  have 2: "findOverlappingEvents sample_dates [gym, breakfast, long_gym] = [(0, 2), (1, 2)]"
    by code_simp
  show ?thesis
    using findOverlappingEvents_permutation [OF b, of sample_dates] b 1 2 unfolding m by simp
qed


section \<open>escapeICSText\<close>

lemmas unit_defs = BACKSLASH_def SEMICOLON_def COMMA_def LF_def LOWER_N_def CR_def SPACE_def

lemma replace_all_Nil: "replace_all c rep [] = []"
  by (simp add: replace_all_def)

lemma replace_all_Cons:
  "replace_all c rep (x # xs) = (if x = c then rep else [x]) @ replace_all c rep xs"
  by (simp add: replace_all_def)

lemma replace_all_append:
  "replace_all c rep (xs @ ys) = replace_all c rep xs @ replace_all c rep ys"
  by (simp add: replace_all_def)

lemma escapeICSText_Nil: "escapeICSText [] = []"
  by (simp add: escapeICSText_def replace_all_Nil)

lemma escapeICSText_Cons: "escapeICSText (x # xs) = escape_unit x @ escapeICSText xs"
  by (simp add: escapeICSText_def replace_all_Cons replace_all_append replace_all_Nil
      escape_unit_def unit_defs)

lemma escapeICSText_units: "escapeICSText s = concat (map escape_unit s)"
  by (induction s) (simp_all add: escapeICSText_Nil escapeICSText_Cons)

lemma unescape_unit: "unescapeICSText (escape_unit c @ r) = c # unescapeICSText r"
proof (cases r)
  case Nil
  then show ?thesis by (simp add: escape_unit_def unit_defs)
next
  case (Cons b rest)
  then show ?thesis by (simp add: escape_unit_def unit_defs)
qed

lemma unescape_escape: "unescapeICSText (escapeICSText s) = s"
  by (induction s) (simp_all add: escapeICSText_Nil escapeICSText_Cons unescape_unit)

text \<open>
  C4. \<open>escapeICSText\<close> is the four replacements in the order backslash, semicolon,
  comma, newline; the result escapes every code unit of the input on its own (a
  backslash put in by a later replacement is never escaped again); unescaping the
  escaped text gives the original back for every string, so the escaping is injective.
\<close>

theorem escapeICSText_injective:
  "escapeICSText s =
     replace_all LF [BACKSLASH, LOWER_N]
       (replace_all COMMA [BACKSLASH, COMMA]
         (replace_all SEMICOLON [BACKSLASH, SEMICOLON]
           (replace_all BACKSLASH [BACKSLASH, BACKSLASH] s)))
   \<and> escapeICSText s = concat (map escape_unit s)
   \<and> unescapeICSText (escapeICSText s) = s
   \<and> inj escapeICSText"
proof (intro conjI)
  show "inj escapeICSText"
    by (rule inj_on_inverseI [where g = unescapeICSText]) (rule unescape_escape)
qed (rule escapeICSText_def, rule escapeICSText_units, rule unescape_escape)


section \<open>foldLine\<close>

lemma fold_rest_eq:
  "fold_rest remaining folded = folded @ map ((#) SPACE) (chunks74 remaining)"
proof (induction remaining folded rule: fold_rest.induct)
  case (1 remaining folded)
  show ?case
  proof (cases "remaining = []")
    case True
    then show ?thesis
      by (subst fold_rest.simps, subst chunks74.simps) simp
  next
    case False
    then have "fold_rest remaining folded
                 = fold_rest (drop 74 remaining) (folded @ [SPACE # take 74 remaining])"
      by (subst fold_rest.simps) simp
    also have "\<dots> = (folded @ [SPACE # take 74 remaining])
                       @ map ((#) SPACE) (chunks74 (drop 74 remaining))"
      using False by (intro "1.IH") simp
    also have "\<dots> = folded @ map ((#) SPACE) (chunks74 remaining)"
      using False by (subst (2) chunks74.simps) simp
    finally show ?thesis .
  qed
qed

lemma join_Cons: "join sep (x # ys) = x @ concat (map ((@) sep) ys)"
  by (induction ys arbitrary: x) simp_all

lemma concat_chunks74: "concat (chunks74 s) = s"
proof (induction s rule: chunks74.induct)
  case (1 s)
  then show ?case by (subst chunks74.simps) simp
qed

lemma chunks74_sizes: "list_all (\<lambda>c. 0 < length c \<and> length c \<le> 74) (chunks74 s)"
proof (induction s rule: chunks74.induct)
  case (1 s)
  then show ?case by (subst chunks74.simps) (cases s; simp)
qed

lemma foldLine_shape:
  "foldLine line =
     (if length line \<le> 75 then line
      else take 75 line @ concat (map (\<lambda>c. [CR, LF, SPACE] @ c) (chunks74 (drop 75 line))))"
  by (simp add: foldLine_def fold_rest_eq join_Cons comp_def)

lemma has_fold_mark_Cons: "has_fold_mark s \<Longrightarrow> has_fold_mark (x # s)"
  by (cases s rule: has_fold_mark.cases) simp_all

lemma has_fold_mark_appendR: "has_fold_mark b \<Longrightarrow> has_fold_mark (a @ b)"
  by (induction a) (simp_all add: has_fold_mark_Cons)

lemma has_fold_mark_appendL: "has_fold_mark a \<Longrightarrow> has_fold_mark (a @ b)"
  by (induction a rule: has_fold_mark.induct) auto

lemma no_mark_take: "\<not> has_fold_mark s \<Longrightarrow> \<not> has_fold_mark (take k s)"
  using has_fold_mark_appendL [of "take k s" "drop k s"] by auto

lemma no_mark_drop: "\<not> has_fold_mark s \<Longrightarrow> \<not> has_fold_mark (drop k s)"
  using has_fold_mark_appendR [of "drop k s" "take k s"] by auto

lemma no_mark_chunks: "\<not> has_fold_mark s \<Longrightarrow> list_all (\<lambda>c. \<not> has_fold_mark c) (chunks74 s)"
proof (induction s rule: chunks74.induct)
  case (1 s)
  then show ?case
    by (subst chunks74.simps) (simp add: no_mark_take no_mark_drop)
qed

lemma unfoldLine_id: "\<not> has_fold_mark a \<Longrightarrow> unfoldLine a = a"
  by (induction a rule: has_fold_mark.induct) auto

lemma unfoldLine_mark:
  "\<not> has_fold_mark a \<Longrightarrow> unfoldLine (a @ CR # LF # SPACE # r) = a @ unfoldLine r"
proof (induction a rule: has_fold_mark.induct)
  case (1 a b c rest)
  then show ?case by auto
qed (simp_all add: CR_def LF_def SPACE_def)

lemma unfoldLine_chunks:
  "\<not> has_fold_mark a \<Longrightarrow> list_all (\<lambda>c. \<not> has_fold_mark c) cs \<Longrightarrow>
     unfoldLine (a @ concat (map (\<lambda>c. [CR, LF, SPACE] @ c) cs)) = a @ concat cs"
proof (induction cs arbitrary: a)
  case Nil
  then show ?case by (simp add: unfoldLine_id)
next
  case (Cons c cs)
  then show ?case by (simp add: unfoldLine_mark)
qed

lemma unfold_foldLine:
  assumes "\<not> has_fold_mark line"
  shows "unfoldLine (foldLine line) = line"
proof (cases "length line \<le> 75")
  case True
  then show ?thesis using assms by (simp add: foldLine_shape unfoldLine_id)
next
  case False
  have "unfoldLine (take 75 line
          @ concat (map (\<lambda>c. [CR, LF, SPACE] @ c) (chunks74 (drop 75 line))))
        = take 75 line @ concat (chunks74 (drop 75 line))"
    using assms by (intro unfoldLine_chunks no_mark_take no_mark_chunks no_mark_drop)
  also have "\<dots> = line"
    by (simp add: concat_chunks74)
  finally show ?thesis
    using False by (simp only: foldLine_shape if_False)
qed

text \<open>
  C2, as amended. A line of at most 75 code units is returned unchanged. A longer one
  becomes its first 75 code units followed by the rest cut into pieces of at most 74
  code units, each piece preceded by carriage return, line feed and one space. For a
  line that does not itself contain carriage return, line feed, space in a row,
  removing every such sequence from the folded line gives the line back.
\<close>

theorem foldLine_folds:
  "foldLine line =
     (if length line \<le> 75 then line
      else take 75 line @ concat (map (\<lambda>c. [CR, LF, SPACE] @ c) (chunks74 (drop 75 line))))
   \<and> concat (chunks74 (drop 75 line)) = drop 75 line
   \<and> list_all (\<lambda>c. 0 < length c \<and> length c \<le> 74) (chunks74 (drop 75 line))
   \<and> (\<not> has_fold_mark line \<longrightarrow> unfoldLine (foldLine line) = line)"
  using foldLine_shape concat_chunks74 chunks74_sizes unfold_foldLine by blast

text \<open>An instance: a line of 160 letters is folded into three pieces and unfolds again.\<close>

theorem foldLine_folds_witness:
  "\<not> has_fold_mark (replicate 160 0x61)
   \<and> foldLine (replicate 160 0x61) =
       replicate 75 0x61 @ [CR, LF, SPACE] @ replicate 74 0x61 @ [CR, LF, SPACE] @ replicate 11 0x61
   \<and> unfoldLine (foldLine (replicate 160 0x61)) = replicate 160 0x61"
proof -
  have n: "\<not> has_fold_mark (replicate 160 0x61)" by code_simp
  have f: "foldLine (replicate 160 0x61) =
       replicate 75 0x61 @ [CR, LF, SPACE] @ replicate 74 0x61 @ [CR, LF, SPACE] @ replicate 11 0x61"
    by code_simp
  show ?thesis using foldLine_folds [of "replicate 160 0x61"] n f by blast
qed

text \<open>
  C2 as stated fails: a line that already contains carriage return, line feed, space
  loses it when the folded line is unfolded.
\<close>

theorem foldLine_roundtrip_counterexample:
  "length marked_line = 76
   \<and> unfoldLine (foldLine marked_line) = replicate 73 0x61
   \<and> unfoldLine (foldLine marked_line) \<noteq> marked_line"
  by code_simp


section \<open>Decimal numerals\<close>

lemma unat_digit_char: "d < 10 \<Longrightarrow> unat (digit_char d) = 48 + d"
  by (simp only: digit_char_def unat_of_nat) simp

lemma is_digit_digit_char: "d < 10 \<Longrightarrow> is_digit (digit_char d)"
  by (simp add: is_digit_def word_le_nat_alt unat_digit_char)

lemma decimal_digits: "list_all is_digit (decimal n)"
proof (induction n rule: decimal.induct)
  case (1 n)
  then show ?case
    by (subst decimal.simps) (simp add: is_digit_digit_char)
qed

lemma decimal_value: "foldl (\<lambda>a c. 10 * a + (unat c - 48)) 0 (decimal n) = n"
proof (induction n rule: decimal.induct)
  case (1 n)
  show ?case
  proof (cases "n < 10")
    case True
    then have "decimal n = [digit_char n]" by (subst decimal.simps) simp
    then show ?thesis using True by (simp add: unat_digit_char)
  next
    case False
    then have d: "decimal n = decimal (n div 10) @ [digit_char (n mod 10)]"
      by (subst decimal.simps) simp
    have "foldl (\<lambda>a c. 10 * a + (unat c - 48)) 0 (decimal n)
            = 10 * (n div 10) + (unat (digit_char (n mod 10)) - 48)"
      using "1.IH" [OF False] by (simp only: d foldl_append foldl.simps)
    also have "\<dots> = 10 * (n div 10) + n mod 10"
      by (simp add: unat_digit_char)
    finally show ?thesis by simp
  qed
qed

lemma decimal_inj: "decimal n = decimal m \<Longrightarrow> n = m"
  by (metis decimal_value)

lemma decimal_numeral:
  "decimal (numeral k) =
     (if (numeral k :: nat) < 10 then [digit_char (numeral k)]
      else decimal (numeral k div 10) @ [digit_char (numeral k mod 10)])"
  by (rule decimal.simps)

lemma decimal_0: "decimal 0 = [0x30]"
  by (subst decimal.simps) (simp add: digit_char_def)

lemma decimal_1: "decimal (Suc 0) = [0x31]"
  by (subst decimal.simps) (simp add: digit_char_def)

lemmas decimal_eval = decimal_numeral decimal_0 decimal_1 digit_char_def


section \<open>generateUID\<close>

lemma matches_Nil_iff: "matches [] s \<longleftrightarrow> s = []"
  by (cases s) simp_all

lemma matches_Digit_iff: "matches (Digit # ps) s \<longleftrightarrow> (\<exists>c cs. s = c # cs \<and> is_digit c \<and> matches ps cs)"
  by (cases s) simp_all

lemma matches_Exactly_iff: "matches (Exactly x # ps) s \<longleftrightarrow> (\<exists>cs. s = x # cs \<and> matches ps cs)"
  by (cases s) auto

lemma is_digit_alnum: "is_digit c \<Longrightarrow> is_alnum c"
  by (simp add: is_digit_def is_alnum_def)

lemma filter_alnum_digits: "list_all is_digit ds \<Longrightarrow> filter is_alnum ds = ds"
  by (induction ds) (simp_all add: is_digit_alnum)

lemma filter_alnum_dash: "filter is_alnum (lit ''-'') = []"
  by (simp add: lit_def is_alnum_def)

lemma sanitized_local_format:
  assumes "is_local_format s"
  shows "\<exists>p q. filter is_alnum s = p @ 0x54 # q \<and> length q = 4 \<and> list_all is_digit q"
proof -
  from assms obtain y1 y2 y3 y4 m1 m2 d1 d2 h1 h2 n1 n2 where
    s: "s = [y1, y2, y3, y4, 0x2D, m1, m2, 0x2D, d1, d2, 0x54, h1, h2, 0x3A, n1, n2]"
    and c: "is_digit y1" "is_digit y2" "is_digit y3" "is_digit y4" "is_digit m1" "is_digit m2"
      "is_digit d1" "is_digit d2" "is_digit h1" "is_digit h2" "is_digit n1" "is_digit n2"
    unfolding is_local_format_def local_format_def
      matches_Digit_iff matches_Exactly_iff matches_Nil_iff by blast
  have "filter is_alnum s = [y1, y2, y3, y4, m1, m2, d1, d2] @ 0x54 # [h1, h2, n1, n2]"
    using c by (simp add: s is_digit_alnum) (simp add: is_alnum_def)
  moreover have "length [h1, h2, n1, n2] = 4 \<and> list_all is_digit [h1, h2, n1, n2]"
    using c by simp
  ultimately show ?thesis by blast
qed

lemma digit_tail:
  "\<not> is_digit y \<Longrightarrow> list_all is_digit ds \<Longrightarrow> takeWhile is_digit (rev (xs @ y # ds)) = rev ds"
  using takeWhile_append2 [of "rev ds" is_digit "y # rev xs"] by (simp add: list_all_iff)

lemma generateUID_shape:
  assumes "is_local_format (start_local e)"
  shows "\<exists>x q. generateUID t e i = x @ 0x54 # q @ decimal i @ lit ''@chat-to-calendar''
           \<and> length q = 4 \<and> list_all is_digit q"
proof -
  obtain p q where pq: "filter is_alnum (start_local e) = p @ 0x54 # q"
    "length q = 4" "list_all is_digit q"
    using sanitized_local_format [OF assms] by blast
  have "generateUID t e i =
          (string_of_int t @ lit ''-'' @ filter is_alnum (title e) @ p)
            @ 0x54 # q @ decimal i @ lit ''@chat-to-calendar''"
    by (simp add: generateUID_def Let_def filter_alnum_dash pq
        filter_alnum_digits [OF decimal_digits])
  with pq show ?thesis by blast
qed

text \<open>
  Where the sanitised hash still tells events apart: when both \<open>start_local\<close> strings
  are in the documented format YYYY-MM-DDTHH:mm, the letter T fixes where the index
  begins, and two distinct positions give different identifiers. A collision therefore
  needs a start string outside that format.
\<close>

lemma generateUID_distinct:
  assumes "is_local_format (start_local e1)" and "is_local_format (start_local e2)"
    and "i \<noteq> j"
  shows "generateUID t1 e1 i \<noteq> generateUID t2 e2 j"
proof
  assume eq: "generateUID t1 e1 i = generateUID t2 e2 j"
  obtain x1 q1 where 1: "generateUID t1 e1 i = x1 @ 0x54 # q1 @ decimal i @ lit ''@chat-to-calendar''"
    "length q1 = 4" "list_all is_digit q1"
    using generateUID_shape [OF assms(1)] by blast
  obtain x2 q2 where 2: "generateUID t2 e2 j = x2 @ 0x54 # q2 @ decimal j @ lit ''@chat-to-calendar''"
    "length q2 = 4" "list_all is_digit q2"
    using generateUID_shape [OF assms(2)] by blast
  have "(x1 @ 0x54 # (q1 @ decimal i)) @ lit ''@chat-to-calendar''
        = (x2 @ 0x54 # (q2 @ decimal j)) @ lit ''@chat-to-calendar''"
    using eq 1(1) 2(1) by simp
  then have "x1 @ 0x54 # (q1 @ decimal i) = x2 @ 0x54 # (q2 @ decimal j)"
    by (simp only: append_same_eq)
  then have "takeWhile is_digit (rev (x1 @ 0x54 # (q1 @ decimal i)))
           = takeWhile is_digit (rev (x2 @ 0x54 # (q2 @ decimal j)))"
    by (rule arg_cong)
  moreover have nd: "\<not> is_digit 0x54" by (simp add: is_digit_def)
  have "takeWhile is_digit (rev (x1 @ 0x54 # (q1 @ decimal i))) = rev (q1 @ decimal i)"
    using 1(3) decimal_digits by (intro digit_tail nd) simp
  moreover have "takeWhile is_digit (rev (x2 @ 0x54 # (q2 @ decimal j))) = rev (q2 @ decimal j)"
    using 2(3) decimal_digits by (intro digit_tail nd) simp
  ultimately have "rev (q1 @ decimal i) = rev (q2 @ decimal j)"
    by simp
  then have "q1 @ decimal i = q2 @ decimal j" by (simp only: rev_is_rev_conv)
  then have "decimal i = decimal j" using 1(2) 2(2) by simp
  then have "i = j" by (rule decimal_inj)
  with assms(3) show False by contradiction
qed

lemma uid_run_a: "generateUID 1770000000000 run_a 0 = lit ''1770000000000-Run120260209T07010@chat-to-calendar''"
  by (simp add: generateUID_def run_a_def string_of_int_def decimal_eval lit_def is_alnum_def)

lemma uid_run_b: "generateUID 1770000000000 run_b 10 = lit ''1770000000000-Run120260209T07010@chat-to-calendar''"
  by (simp add: generateUID_def run_b_def string_of_int_def decimal_eval lit_def is_alnum_def)

lemma crowded_0: "events crowded ! 0 = run_a"
  by (simp add: crowded_def)

lemma crowded_10: "events crowded ! 10 = run_b"
  by (simp add: crowded_def nth_append)

lemma run_a_neq_run_b: "run_a \<noteq> run_b"
  by (simp add: run_a_def run_b_def lit_def)

lemma createVEvent_uid_line:
  "createVEvent h now isoNow e i ! 1 = lit ''UID:'' @ generateUID (now i) e i"
  by (simp add: createVEvent_def Let_def nth_append split: option.splits)

text \<open>
  C5. The identifiers of two different events of one schedule can collide.
  \<open>generateUID\<close> joins title, start and index with \<open>-\<close> and then removes every
  character that is not a letter or digit, the separators included, so the three parts
  run together. In the schedule \<open>crowded\<close> the events at positions 0 and 10 differ,
  and at the same clock reading both get the same identifier, hence the same UID line
  in their event blocks.
\<close>

theorem generateUID_collision:
  "events crowded ! 0 \<noteq> events crowded ! 10
   \<and> generateUID 1770000000000 (events crowded ! 0) 0
       = lit ''1770000000000-Run120260209T07010@chat-to-calendar''
   \<and> generateUID 1770000000000 (events crowded ! 10) 10
       = lit ''1770000000000-Run120260209T07010@chat-to-calendar''
   \<and> createVEvent h (\<lambda>k. 1770000000000) isoNow (events crowded ! 0) 0 ! 1
       = createVEvent h (\<lambda>k. 1770000000000) isoNow (events crowded ! 10) 10 ! 1"
  by (simp only: crowded_0 crowded_10 uid_run_a uid_run_b createVEvent_uid_line)
     (simp add: run_a_neq_run_b)


section \<open>The sample host\<close>

lemmas utc_defs = utc_civil_def utc_year_def utc_month_def utc_date_def march_month_def
  year_day_def era_year_def era_day_def

lemma utc_0700: "utc_civil 1770620400000 =
  \<lparr> c_year = 2026, c_month = 1, c_date = 9, c_hours = 7, c_minutes = 0, c_seconds = 0 \<rparr>"
  by (simp add: utc_defs)

lemma utc_0800: "utc_civil 1770624000000 =
  \<lparr> c_year = 2026, c_month = 1, c_date = 9, c_hours = 8, c_minutes = 0, c_seconds = 0 \<rparr>"
  by (simp add: utc_defs)

lemma parse_0700: "parseDate sample_host (lit ''2026-02-09T07:00'') = Some 1770620400000"
  by (simp add: sample_host_def sample_dates_def lit_def)

lemma parse_0800: "parseDate sample_host (lit ''2026-02-09T08:00'') = Some 1770624000000"
  by (simp add: sample_host_def sample_dates_def lit_def)

lemma parse_stamp: "parseDate sample_host (lit ''2026-02-09T07:00:00.000Z'') = Some 1770620400000"
  by (simp add: sample_host_def sample_dates_def lit_def)

lemma sample_fields:
  "localFields sample_host = utc_civil \<and> utcFields sample_host = utc_civil"
  by (simp add: sample_host_def)

lemmas format_eval = Let_def getter_def plus1_def String_def string_of_int_def padStart2_def
  decimal_eval parse_0700 parse_0800 parse_stamp sample_fields utc_0700 utc_0800

lemma apple_0700: "formatDateForApple sample_host (lit ''2026-02-09T07:00'') = lit ''20260209T070000''"
  by (simp add: formatDateForApple_def format_eval) (simp add: lit_def)

lemma apple_0800: "formatDateForApple sample_host (lit ''2026-02-09T08:00'') = lit ''20260209T080000''"
  by (simp add: formatDateForApple_def format_eval) (simp add: lit_def)

lemma ics_0700: "formatDateForICS sample_host (lit ''2026-02-09T07:00'') = lit ''20260209T070000Z''"
  by (simp add: formatDateForICS_def format_eval) (simp add: lit_def)

lemma ics_0800: "formatDateForICS sample_host (lit ''2026-02-09T08:00'') = lit ''20260209T080000Z''"
  by (simp add: formatDateForICS_def format_eval) (simp add: lit_def)

lemma ics_stamp: "formatDateForICS sample_host (lit ''2026-02-09T07:00:00.000Z'') = lit ''20260209T070000Z''"
  by (simp add: formatDateForICS_def format_eval) (simp add: lit_def)


section \<open>generateAppleCalendarLink\<close>

lemma formatDateForApple_invalid:
  "parseDate h s = None \<Longrightarrow> formatDateForApple h s = lit ''NaNNaNNaNTNaNNaN00''"
  by (simp add: formatDateForApple_def Let_def getter_def plus1_def String_def padStart2_def lit_def)

lemma form_encode_NaN: "form_encode (lit ''NaNNaNNaNTNaNNaN00'') = lit ''NaNNaNNaNTNaNNaN00''"
  by (simp add: form_encode_def lit_def is_high_surrogate_def is_low_surrogate_def lone_unit_def
      utf8_def form_byte_def)

lemma appleParams_head:
  "\<exists>rest. appleParams h e =
      (lit ''title'', title e) # (lit ''starts'', formatDateForApple h (start_local e))
        # (lit ''ends'', formatDateForApple h (end_local e)) # rest"
  by (simp add: appleParams_def Let_def split: option.splits)

lemma form_encode_title: "form_encode (lit ''title'') = lit ''title''"
  by (simp add: form_encode_def lit_def is_high_surrogate_def is_low_surrogate_def lone_unit_def
      utf8_def form_byte_def)

lemma form_encode_starts: "form_encode (lit ''starts'') = lit ''starts''"
  by (simp add: form_encode_def lit_def is_high_surrogate_def is_low_surrogate_def lone_unit_def
      utf8_def form_byte_def)

lemma form_encode_ends: "form_encode (lit ''ends'') = lit ''ends''"
  by (simp add: form_encode_def lit_def is_high_surrogate_def is_low_surrogate_def lone_unit_def
      utf8_def form_byte_def)

lemma params_toString_three:
  "\<exists>tail. params_toString ((n1, v1) # (n2, v2) # (n3, v3) # rest) =
     form_encode n1 @ lit ''='' @ form_encode v1 @ lit ''&''
       @ form_encode n2 @ lit ''='' @ form_encode v2 @ lit ''&''
       @ form_encode n3 @ lit ''='' @ form_encode v3 @ tail"
  by (cases rest) (simp_all add: params_toString_def)

lemma link_shape:
  "\<exists>rest. generateAppleCalendarLink h e tz =
      lit ''https://www.icloud.com/calendar/event?title='' @ form_encode (title e)
        @ lit ''&starts='' @ form_encode (formatDateForApple h (start_local e))
        @ lit ''&ends='' @ form_encode (formatDateForApple h (end_local e)) @ rest"
proof -
  obtain rest where r: "appleParams h e =
      (lit ''title'', title e) # (lit ''starts'', formatDateForApple h (start_local e))
        # (lit ''ends'', formatDateForApple h (end_local e)) # rest"
    using appleParams_head by blast
  obtain tail where t: "params_toString (appleParams h e) =
     form_encode (lit ''title'') @ lit ''='' @ form_encode (title e) @ lit ''&''
       @ form_encode (lit ''starts'') @ lit ''='' @ form_encode (formatDateForApple h (start_local e)) @ lit ''&''
       @ form_encode (lit ''ends'') @ lit ''='' @ form_encode (formatDateForApple h (end_local e)) @ tail"
    unfolding r using params_toString_three by blast
  have "generateAppleCalendarLink h e tz =
      lit ''https://www.icloud.com/calendar/event?title='' @ form_encode (title e)
        @ lit ''&starts='' @ form_encode (formatDateForApple h (start_local e))
        @ lit ''&ends='' @ form_encode (formatDateForApple h (end_local e)) @ tail"
    unfolding generateAppleCalendarLink_def t form_encode_title form_encode_starts form_encode_ends
    by (simp add: lit_def)
  then show ?thesis by blast
qed

text \<open>
  C6, as amended. \<open>generateAppleCalendarLink\<close> has no failing path: for every event it
  returns the URL with the parameters title, starts and ends in this order. When
  \<open>start_local\<close> (or \<open>end_local\<close>) is unparseable, the value of \<open>starts\<close> (or
  \<open>ends\<close>) is the text NaNNaNNaNTNaNNaN00, which the query string carries unchanged;
  it is not empty.
\<close>

theorem generateAppleCalendarLink_unparseable:
  "(parseDate h (start_local e) = None \<longrightarrow>
      map_of (appleParams h e) (lit ''starts'') = Some (lit ''NaNNaNNaNTNaNNaN00''))
   \<and> (parseDate h (end_local e) = None \<longrightarrow>
      map_of (appleParams h e) (lit ''ends'') = Some (lit ''NaNNaNNaNTNaNNaN00''))
   \<and> (\<exists>rest. generateAppleCalendarLink h e tz =
         lit ''https://www.icloud.com/calendar/event?title='' @ form_encode (title e)
           @ lit ''&starts='' @ form_encode (formatDateForApple h (start_local e))
           @ lit ''&ends='' @ form_encode (formatDateForApple h (end_local e)) @ rest)
   \<and> form_encode (lit ''NaNNaNNaNTNaNNaN00'') = lit ''NaNNaNNaNTNaNNaN00''"
proof -
  obtain rest where r: "appleParams h e =
      (lit ''title'', title e) # (lit ''starts'', formatDateForApple h (start_local e))
        # (lit ''ends'', formatDateForApple h (end_local e)) # rest"
    using appleParams_head by blast
  have 1: "map_of (appleParams h e) (lit ''starts'') = Some (formatDateForApple h (start_local e))"
    unfolding r by (simp add: lit_def)
  have 2: "map_of (appleParams h e) (lit ''ends'') = Some (formatDateForApple h (end_local e))"
    unfolding r by (simp add: lit_def)
  show ?thesis
    using 1 2 link_shape [of h e tz] form_encode_NaN
    by (simp add: formatDateForApple_invalid)
qed

lemma no_date_unparseable:
  "parseDate sample_host (start_local no_date) = None \<and> parseDate sample_host (end_local no_date) = None"
  by (simp add: sample_host_def no_date_def sample_dates_def lit_def)

text \<open>An instance: the event whose start and end are not dates.\<close>

theorem generateAppleCalendarLink_unparseable_witness:
  "parseDate sample_host (start_local no_date) = None
   \<and> parseDate sample_host (end_local no_date) = None
   \<and> map_of (appleParams sample_host no_date) (lit ''starts'') = Some (lit ''NaNNaNNaNTNaNNaN00'')
   \<and> map_of (appleParams sample_host no_date) (lit ''ends'') = Some (lit ''NaNNaNNaNTNaNNaN00'')"
  using generateAppleCalendarLink_unparseable [of sample_host no_date "lit ''UTC''"]
    no_date_unparseable by simp

lemma no_date_link:
  "generateAppleCalendarLink sample_host no_date (lit ''UTC'') =
     lit ''https://www.icloud.com/calendar/event?title=Gym&starts=NaNNaNNaNTNaNNaN00&ends=NaNNaNNaNTNaNNaN00''"
  using no_date_unparseable
  by (simp add: generateAppleCalendarLink_def appleParams_def Let_def formatDateForApple_invalid
        params_toString_def)
     (simp add: no_date_def form_encode_def lit_def is_high_surrogate_def is_low_surrogate_def
        lone_unit_def utf8_def form_byte_def)

text \<open>
  C6 as stated fails: for an event with unparseable dates the value of \<open>starts\<close> is
  not empty.
\<close>

theorem generateAppleCalendarLink_empty_value_counterexample:
  "parseDate sample_host (start_local no_date) = None
   \<and> map_of (appleParams sample_host no_date) (lit ''starts'') \<noteq> Some []
   \<and> generateAppleCalendarLink sample_host no_date (lit ''UTC'') =
       lit ''https://www.icloud.com/calendar/event?title=Gym&starts=NaNNaNNaNTNaNNaN00&ends=NaNNaNNaNTNaNNaN00''"
  using no_date_unparseable no_date_link
  by (simp add: appleParams_def Let_def formatDateForApple_invalid no_date_def) (simp add: lit_def)


section \<open>Empty optional fields\<close>

lemma createVEvent_absent:
  "createVEvent h now isoNow (absent_if_empty e) i = createVEvent h now isoNow e i"
  by (simp add: createVEvent_def absent_if_empty_def generateUID_def Let_def split: option.splits)

lemma push_events_absent:
  "push_events h now isoNow (map absent_if_empty evs) k lines = push_events h now isoNow evs k lines"
  by (induction evs arbitrary: k lines) (simp_all add: createVEvent_absent)

lemma generateICS_absent:
  "generateICS h now isoNow (s\<lparr>events := map absent_if_empty (events s)\<rparr>) = generateICS h now isoNow s"
  by (simp add: generateICS_def push_events_absent)

lemma appleParams_absent: "appleParams h (absent_if_empty e) = appleParams h e"
  by (simp add: appleParams_def absent_if_empty_def Let_def split: option.splits)

lemma link_absent:
  "generateAppleCalendarLink h (absent_if_empty e) tz = generateAppleCalendarLink h e tz"
  by (simp add: generateAppleCalendarLink_def appleParams_absent)

lemma no_description_line:
  "description e = Some [] \<Longrightarrow>
     list_all (\<lambda>l. take 12 l \<noteq> lit ''DESCRIPTION:'') (createVEvent h now isoNow e i)"
  by (simp add: createVEvent_def Let_def lit_def split: option.splits)

lemma no_location_line:
  "location e = Some [] \<Longrightarrow>
     list_all (\<lambda>l. take 9 l \<noteq> lit ''LOCATION:'') (createVEvent h now isoNow e i)"
  by (simp add: createVEvent_def Let_def lit_def split: option.splits)

lemma no_details_param:
  "description e = Some [] \<Longrightarrow> map_of (appleParams h e) (lit ''details'') = None"
  by (simp add: appleParams_def Let_def lit_def split: option.splits)

lemma no_location_param:
  "location e = Some [] \<Longrightarrow> map_of (appleParams h e) (lit ''location'') = None"
  by (simp add: appleParams_def Let_def lit_def split: option.splits)

text \<open>
  C9. An event whose description is the empty string gets no DESCRIPTION line in its
  event block and no \<open>details\<close> parameter in its link; likewise LOCATION and
  \<open>location\<close> for an empty location. The event block, the whole calendar document and
  the link are the same as for the event with those fields absent.
\<close>

theorem empty_optional_fields_omitted:
  "(description e = Some [] \<longrightarrow>
      list_all (\<lambda>l. take 12 l \<noteq> lit ''DESCRIPTION:'') (createVEvent h now isoNow e i)
      \<and> map_of (appleParams h e) (lit ''details'') = None)
   \<and> (location e = Some [] \<longrightarrow>
      list_all (\<lambda>l. take 9 l \<noteq> lit ''LOCATION:'') (createVEvent h now isoNow e i)
      \<and> map_of (appleParams h e) (lit ''location'') = None)
   \<and> createVEvent h now isoNow (absent_if_empty e) i = createVEvent h now isoNow e i
   \<and> generateICS h now isoNow (s\<lparr>events := map absent_if_empty (events s)\<rparr>)
       = generateICS h now isoNow s
   \<and> generateAppleCalendarLink h (absent_if_empty e) tz = generateAppleCalendarLink h e tz"
  using no_description_line no_location_line no_details_param no_location_param
    createVEvent_absent generateICS_absent link_absent
  by (intro conjI impI) blast+

lemma quiet_gym_fields:
  "title quiet_gym = lit ''Gym'' \<and> start_local quiet_gym = lit ''2026-02-09T07:00''
   \<and> end_local quiet_gym = lit ''2026-02-09T08:00''
   \<and> description quiet_gym = Some [] \<and> location quiet_gym = Some []"
  by (simp add: quiet_gym_def gym_def)

lemma quiet_gym_uid:
  "generateUID 1770620400000 quiet_gym 0 = lit ''1770620400000-Gym20260209T07000@chat-to-calendar''"
  by (simp add: generateUID_def quiet_gym_fields string_of_int_def decimal_eval lit_def is_alnum_def)

lemma quiet_gym_block:
  "createVEvent sample_host (\<lambda>k. 1770620400000) (\<lambda>k. lit ''2026-02-09T07:00:00.000Z'') quiet_gym 0 =
     [lit ''BEGIN:VEVENT'', lit ''UID:1770620400000-Gym20260209T07000@chat-to-calendar'',
      lit ''DTSTAMP:20260209T070000Z'', lit ''DTSTART:20260209T070000Z'',
      lit ''DTEND:20260209T080000Z'', lit ''SUMMARY:Gym'', lit ''END:VEVENT'']"
  by (simp add: createVEvent_def Let_def quiet_gym_fields quiet_gym_uid ics_0700 ics_0800 ics_stamp)
     (simp add: lit_def escapeICSText_def replace_all_def BACKSLASH_def SEMICOLON_def COMMA_def LF_def)

lemma quiet_gym_link:
  "generateAppleCalendarLink sample_host quiet_gym (lit ''UTC'') =
     lit ''https://www.icloud.com/calendar/event?title=Gym&starts=20260209T070000&ends=20260209T080000''"
  by (simp add: generateAppleCalendarLink_def appleParams_def Let_def quiet_gym_fields
        apple_0700 apple_0800 params_toString_def)
     (simp add: form_encode_def lit_def is_high_surrogate_def is_low_surrogate_def
        lone_unit_def utf8_def form_byte_def)

text \<open>
  An instance: the gym session with an empty description and an empty location, encoded
  on the sample host.
\<close>

theorem empty_optional_fields_omitted_witness:
  "description quiet_gym = Some [] \<and> location quiet_gym = Some []
   \<and> list_all (\<lambda>l. take 12 l \<noteq> lit ''DESCRIPTION:'')
        (createVEvent sample_host (\<lambda>k. 1770620400000) (\<lambda>k. lit ''2026-02-09T07:00:00.000Z'') quiet_gym 0)
   \<and> list_all (\<lambda>l. take 9 l \<noteq> lit ''LOCATION:'')
        (createVEvent sample_host (\<lambda>k. 1770620400000) (\<lambda>k. lit ''2026-02-09T07:00:00.000Z'') quiet_gym 0)
   \<and> createVEvent sample_host (\<lambda>k. 1770620400000) (\<lambda>k. lit ''2026-02-09T07:00:00.000Z'') quiet_gym 0 =
     [lit ''BEGIN:VEVENT'', lit ''UID:1770620400000-Gym20260209T07000@chat-to-calendar'',
      lit ''DTSTAMP:20260209T070000Z'', lit ''DTSTART:20260209T070000Z'',
      lit ''DTEND:20260209T080000Z'', lit ''SUMMARY:Gym'', lit ''END:VEVENT'']
   \<and> generateAppleCalendarLink sample_host quiet_gym (lit ''UTC'') =
     lit ''https://www.icloud.com/calendar/event?title=Gym&starts=20260209T070000&ends=20260209T080000''"
proof -
  note t = empty_optional_fields_omitted [of quiet_gym sample_host "\<lambda>k. 1770620400000"
      "\<lambda>k. lit ''2026-02-09T07:00:00.000Z''" 0]
  have d: "description quiet_gym = Some []" and l: "location quiet_gym = Some []"
    by (simp_all add: quiet_gym_fields)
  have 1: "list_all (\<lambda>l. take 12 l \<noteq> lit ''DESCRIPTION:'')
        (createVEvent sample_host (\<lambda>k. 1770620400000) (\<lambda>k. lit ''2026-02-09T07:00:00.000Z'') quiet_gym 0)"
    using t d by simp
  have 2: "list_all (\<lambda>l. take 9 l \<noteq> lit ''LOCATION:'')
        (createVEvent sample_host (\<lambda>k. 1770620400000) (\<lambda>k. lit ''2026-02-09T07:00:00.000Z'') quiet_gym 0)"
    using t l by simp
  show ?thesis
    using d l 1 2 quiet_gym_block quiet_gym_link by (intro conjI)
qed

end
